theory Spec2Isabelle
  imports Complex_Main "HOL-Library.AList"
begin

section \<open>Python values used by the retrieval pipeline\<close>

text \<open>
  A Python \<open>str\<close> is a sequence of Unicode code points and \<open>len\<close> counts code points, so
  a string is a list of code points here. Python \<open>int\<close> is unbounded (\<open>int\<close>); the
  timestamps and scores are Python floats, modelled as reals: the code only compares
  them, subtracts two timestamps, and averages and scales scores.
\<close>

type_synonym pystr = "nat list"

definition ascii :: "string \<Rightarrow> pystr" where
  "ascii s = map of_char s"

datatype py_error = ValueError | IndexError

text \<open>\<open>str.isspace\<close> for one code point: the Unicode white space characters.\<close>

definition isspace :: "nat \<Rightarrow> bool" where
  "isspace c \<longleftrightarrow>
     (9 \<le> c \<and> c \<le> 13) \<or> (28 \<le> c \<and> c \<le> 32) \<or> c = 133 \<or> c = 160 \<or> c = 5760 \<or>
     (8192 \<le> c \<and> c \<le> 8202) \<or> c = 8232 \<or> c = 8233 \<or> c = 8239 \<or> c = 8287 \<or> c = 12288"

text \<open>\<open>s.strip()\<close>: leading and trailing white space removed.\<close>

definition strip :: "pystr \<Rightarrow> pystr" where
  "strip s = rev (dropWhile isspace (rev (dropWhile isspace s)))"

text \<open>
  \<open>min(xs, key=f)\<close>: raises \<open>ValueError\<close> on an empty sequence; otherwise scans from
  the left and replaces the current best only by a strictly smaller element, so the first
  minimal element wins.
\<close>

fun py_min :: "('a \<Rightarrow> 'b::linorder) \<Rightarrow> 'a list \<Rightarrow> py_error + 'a" where
  "py_min f [] = Inl ValueError"
| "py_min f (x # xs) = Inr (foldl (\<lambda>best y. if f y < f best then y else best) x xs)"


section \<open>The response cache (\<open>CacheManager\<close> of main.py)\<close>

text \<open>
  One cached value is the dict \<open>{'data': data, 'timestamp': ts}\<close>. The cache itself is a
  Python dict, which iterates in insertion order: an association list, where writing an
  existing key keeps its place and writing a new key appends (\<open>AList.update\<close>), and
  \<open>del\<close> removes the key (\<open>AList.delete\<close>).
\<close>

record 'd cached_data =
  data :: 'd
  timestamp :: real

record ('k, 'd) CacheManager =
  cache :: "('k \<times> 'd cached_data) list"
  max_size :: int
  duration :: real

text \<open>
  \<open>_get_cache_key\<close>: \<open>hashlib.md5(query.lower().strip().encode()).hexdigest()\<close>. The
  digest (\<open>md5\<close>, with the encoding) and \<open>str.lower\<close> are library functions and are
  parameters.
\<close>

definition get_cache_key :: "(pystr \<Rightarrow> 'k) \<Rightarrow> (pystr \<Rightarrow> pystr) \<Rightarrow> pystr \<Rightarrow> 'k" where
  "get_cache_key md5 lower query = md5 (strip (lower query))"

text \<open>
  \<open>CacheManager.get\<close>; \<open>now\<close> is the reading of \<open>datetime.now().timestamp()\<close>. The
  result is the returned value (\<open>None\<close> for Python's \<open>None\<close>) and the manager after
  the call.
\<close>

definition get_cache ::
  "(pystr \<Rightarrow> 'k) \<Rightarrow> (pystr \<Rightarrow> pystr) \<Rightarrow> real \<Rightarrow> ('k, 'd) CacheManager \<Rightarrow> pystr
     \<Rightarrow> 'd option \<times> ('k, 'd) CacheManager" where
  "get_cache md5 lower now self query =
     (let key = get_cache_key md5 lower query in
      case map_of (cache self) key of
        Some cached \<Rightarrow>
          if now - timestamp cached < duration self then (Some (data cached), self)
          else (None, self\<lparr>cache := AList.delete key (cache self)\<rparr>)
      | None \<Rightarrow> (None, self))"

text \<open>
  \<open>CacheManager.set\<close>. The eviction test looks at the size only; \<open>min\<close> over the keys
  by their stored timestamp raises on an empty dict (a capacity of zero or less).
\<close>

definition set_cache ::
  "(pystr \<Rightarrow> 'k) \<Rightarrow> (pystr \<Rightarrow> pystr) \<Rightarrow> real \<Rightarrow> ('k, 'd) CacheManager \<Rightarrow> pystr \<Rightarrow> 'd
     \<Rightarrow> py_error + ('k, 'd) CacheManager" where
  "set_cache md5 lower now self query d =
     (let key = get_cache_key md5 lower query in
      if int (length (cache self)) \<ge> max_size self then
        (case py_min (\<lambda>k. timestamp (the (map_of (cache self) k))) (map fst (cache self)) of
           Inl e \<Rightarrow> Inl e
         | Inr oldest_key \<Rightarrow>
             Inr (self\<lparr>cache :=
               AList.update key \<lparr>data = d, timestamp = now\<rparr>
                 (AList.delete oldest_key (cache self))\<rparr>))
      else
        Inr (self\<lparr>cache := AList.update key \<lparr>data = d, timestamp = now\<rparr> (cache self)\<rparr>))"

text \<open>
  A sequence of \<open>set\<close> calls, each with its query, payload and clock reading. A call that
  raises leaves the dict as it was (the exception comes before any mutation), and the
  next call runs on it.
\<close>

fun puts ::
  "(pystr \<Rightarrow> 'k) \<Rightarrow> (pystr \<Rightarrow> pystr) \<Rightarrow> ('k, 'd) CacheManager \<Rightarrow> (pystr \<times> 'd \<times> real) list
     \<Rightarrow> ('k, 'd) CacheManager" where
  "puts md5 lower self [] = self"
| "puts md5 lower self ((query, d, now) # calls) =
     (case set_cache md5 lower now self query d of
        Inl e \<Rightarrow> puts md5 lower self calls
      | Inr self' \<Rightarrow> puts md5 lower self' calls)"


text \<open>What one \<open>set\<close> call writes: the key of its query and the stored value.\<close>

definition call_key :: "(pystr \<Rightarrow> 'k) \<Rightarrow> (pystr \<Rightarrow> pystr) \<Rightarrow> pystr \<times> 'd \<times> real \<Rightarrow> 'k" where
  "call_key md5 lower call = get_cache_key md5 lower (fst call)"

definition stored_entry ::
  "(pystr \<Rightarrow> 'k) \<Rightarrow> (pystr \<Rightarrow> pystr) \<Rightarrow> pystr \<times> 'd \<times> real \<Rightarrow> 'k \<times> 'd cached_data" where
  "stored_entry md5 lower call =
     (call_key md5 lower call, \<lparr>data = fst (snd call), timestamp = snd (snd call)\<rparr>)"


section \<open>Slices, ranges and formatting\<close>

text \<open>
  A slice bound of \<open>xs[i:j]\<close>: a negative bound counts from the end, and every bound is
  clipped into \<open>0..len(xs)\<close>.
\<close>

definition clip_index :: "nat \<Rightarrow> int \<Rightarrow> nat" where
  "clip_index n i = (if i < 0 then nat (int n + i) else min n (nat i))"

definition py_slice :: "'a list \<Rightarrow> int \<Rightarrow> int \<Rightarrow> 'a list" where
  "py_slice xs i j =
     (let a = clip_index (length xs) i; b = clip_index (length xs) j
      in take (b - a) (drop a xs))"

text \<open>
  \<open>range(0, stop, step)\<close>: \<open>ValueError\<close> for a zero step; otherwise the values
  \<open>0, step, 2*step, ...\<close> on the near side of \<open>stop\<close>, whose number is the length
  Python computes for the range object.
\<close>

definition py_range :: "int \<Rightarrow> int \<Rightarrow> py_error + int list" where
  "py_range stop step =
     (if step = 0 then Inl ValueError
      else if 0 < step then
        Inr (map (\<lambda>k. int k * step) [0..<nat ((stop + step - 1) div step)])
      else
        Inr (map (\<lambda>k. int k * step) [0..<nat ((- stop - step - 1) div (- step))]))"

text \<open>\<open>xs[i]\<close> on a list: a negative index counts from the end; out of range raises.\<close>

definition py_nth :: "'a list \<Rightarrow> int \<Rightarrow> py_error + 'a" where
  "py_nth xs i =
     (if 0 \<le> i \<and> i < int (length xs) then Inr (xs ! nat i)
      else if i < 0 \<and> - i \<le> int (length xs) then Inr (xs ! nat (int (length xs) + i))
      else Inl IndexError)"

text \<open>\<open>str(i)\<close> of an integer, as it appears in the f-string \<open>f"{source}_{i}"\<close>.\<close>

fun digits :: "nat \<Rightarrow> pystr" where
  "digits n = (if n < 10 then [48 + n] else digits (n div 10) @ [48 + n mod 10])"

declare digits.simps [simp del]

definition str_int :: "int \<Rightarrow> pystr" where
  "str_int i = (if i < 0 then 45 # digits (nat (- i)) else digits (nat i))"


section \<open>The chunker\<close>

text \<open>
  Both \<open>DocumentProcessor\<close> (main.py) and \<open>TheologyDocumentProcessor\<close>
  (data_processor.py) carry \<open>chunk_size\<close> and \<open>overlap\<close>; nothing else of them is read
  by \<open>chunk_document\<close>. The digest \<open>hashlib.md5(...).hexdigest()\<close> is the parameter
  \<open>md5\<close>. The parameters \<open>content\<close> and \<open>source\<close> of the source are \<open>text\<close> and \<open>src\<close>
  here, since the fields of a chunk bear their names.
\<close>

record processor =
  chunk_size :: int
  overlap :: int

subsection \<open>\<open>DocumentProcessor.chunk_document\<close> (main.py)\<close>

record chunk_metadata =
  start_pos :: int
  end_pos :: int
  chunk_index :: int

record DocumentChunk =
  chunk_id :: pystr
  content :: pystr
  source :: pystr
  metadata :: chunk_metadata

text \<open>The body of the \<open>for\<close> loop, over the offsets that \<open>range\<close> yields.\<close>

fun chunk_loop ::
  "(pystr \<Rightarrow> pystr) \<Rightarrow> processor \<Rightarrow> pystr \<Rightarrow> pystr \<Rightarrow> int list \<Rightarrow> DocumentChunk list
     \<Rightarrow> DocumentChunk list" where
  "chunk_loop md5 self text src [] chunks = chunks"
| "chunk_loop md5 self text src (i # rest) chunks =
     (let chunk_content = py_slice text i (i + chunk_size self) in
      if length (strip chunk_content) < 50 then chunk_loop md5 self text src rest chunks
      else chunk_loop md5 self text src rest
             (chunks @
              [\<lparr>chunk_id = md5 (src @ ascii ''_'' @ str_int i),
                content = strip chunk_content,
                source = src,
                metadata = \<lparr>start_pos = i,
                             end_pos = min (i + chunk_size self) (int (length text)),
                             chunk_index = int (length chunks)\<rparr>\<rparr>]))"

definition chunk_document ::
  "(pystr \<Rightarrow> pystr) \<Rightarrow> processor \<Rightarrow> pystr \<Rightarrow> pystr \<Rightarrow> py_error + DocumentChunk list" where
  "chunk_document md5 self text src =
     (case py_range (int (length text)) (chunk_size self - overlap self) of
        Inl e \<Rightarrow> Inl e
      | Inr offsets \<Rightarrow> Inr (chunk_loop md5 self text src offsets []))"

subsection \<open>\<open>TheologyDocumentProcessor.chunk_document\<close> (data_processor.py)\<close>

text \<open>
  Here a chunk is the dict \<open>{"id", "content", "metadata"}\<close>, and its metadata a dict
  that \<open>chunk_metadata.update(metadata)\<close> extends with the caller's entries, so the
  metadata is an association list of Python values. \<open>now i\<close> is the reading of
  \<open>datetime.now().isoformat()\<close> in the iteration at offset \<open>i\<close>.
\<close>

datatype 'a pyval = VInt int | VStr pystr | VOther 'a

record 'a theology_chunk =
  t_id :: pystr
  t_content :: pystr
  t_metadata :: "(pystr \<times> 'a pyval) list"

definition dict_update :: "('k \<times> 'v) list \<Rightarrow> ('k \<times> 'v) list \<Rightarrow> ('k \<times> 'v) list" where
  "dict_update d other = fold (\<lambda>(k, v). AList.update k v) other d"

fun theology_chunk_loop ::
  "(pystr \<Rightarrow> pystr) \<Rightarrow> (int \<Rightarrow> pystr) \<Rightarrow> processor \<Rightarrow> pystr \<Rightarrow> pystr
     \<Rightarrow> (pystr \<times> 'a pyval) list option \<Rightarrow> int list \<Rightarrow> 'a theology_chunk list
     \<Rightarrow> 'a theology_chunk list" where
  "theology_chunk_loop md5 now self text src meta [] chunks = chunks"
| "theology_chunk_loop md5 now self text src meta (i # rest) chunks =
     (let chunk_content = strip (py_slice text i (i + chunk_size self)) in
      if length chunk_content < 50 then
        theology_chunk_loop md5 now self text src meta rest chunks
      else
        let base =
              [(ascii ''source'', VStr src),
               (ascii ''start_pos'', VInt i),
               (ascii ''end_pos'', VInt (min (i + chunk_size self) (int (length text)))),
               (ascii ''chunk_index'', VInt (int (length chunks))),
               (ascii ''created_at'', VStr (now i))];
            chunk_meta =
              (case meta of
                 None \<Rightarrow> base
               | Some m \<Rightarrow> if m = [] then base else dict_update base m)
        in theology_chunk_loop md5 now self text src meta rest
             (chunks @
              [\<lparr>t_id = md5 (src @ ascii ''_'' @ str_int i),
                t_content = chunk_content,
                t_metadata = chunk_meta\<rparr>]))"

definition theology_chunk_document ::
  "(pystr \<Rightarrow> pystr) \<Rightarrow> (int \<Rightarrow> pystr) \<Rightarrow> processor \<Rightarrow> pystr \<Rightarrow> pystr
     \<Rightarrow> (pystr \<times> 'a pyval) list option \<Rightarrow> py_error + 'a theology_chunk list" where
  "theology_chunk_document md5 now self text src meta =
     (if text = [] \<or> length (strip text) < 20 then Inr []
      else
        case py_range (int (length text)) (chunk_size self - overlap self) of
          Inl e \<Rightarrow> Inl e
        | Inr offsets \<Rightarrow> Inr (theology_chunk_loop md5 now self text src meta offsets []))"


subsection \<open>Offsets and kept windows\<close>

text \<open>
  For stating properties: the offsets that \<open>range\<close> yields for a positive stride, and the
  test under which the loop body keeps the window at an offset.
\<close>

definition offsets :: "processor \<Rightarrow> pystr \<Rightarrow> int list" where
  "offsets self text =
     map (\<lambda>k. int k * (chunk_size self - overlap self))
       [0..<nat ((int (length text) + (chunk_size self - overlap self) - 1)
                  div (chunk_size self - overlap self))]"

definition window_kept :: "processor \<Rightarrow> pystr \<Rightarrow> int \<Rightarrow> bool" where
  "window_kept self text i \<longleftrightarrow> \<not> length (strip (py_slice text i (i + chunk_size self))) < 50"



section \<open>Index construction\<close>

text \<open>
  Of a FAISS index only its kind and construction parameters are modelled. \<open>Config\<close> of
  main.py is a class of constants.
\<close>

datatype faiss_index =
  IndexIVFPQ int int int int
| IndexFlatIP int

fun nlist_of :: "faiss_index \<Rightarrow> int option" where
  "nlist_of (IndexIVFPQ dimension nlist m nbits) = Some nlist"
| "nlist_of (IndexFlatIP dimension) = None"

definition Config_INDEX_TYPE :: string where
  "Config_INDEX_TYPE = ''IVF_PQ''"

definition Config_NLIST :: int where
  "Config_NLIST = 1024"

definition Config_M :: int where
  "Config_M = 96"

definition Config_NBITS :: int where
  "Config_NBITS = 8"

text \<open>\<open>FAISSIndexManager.create_index\<close> (main.py).\<close>

definition create_index :: "int \<Rightarrow> faiss_index" where
  "create_index dimension =
     (if Config_INDEX_TYPE = ''IVF_PQ'' then
        IndexIVFPQ dimension Config_NLIST Config_M Config_NBITS
      else IndexFlatIP dimension)"

text \<open>
  \<open>FAISSIndexManager.train_and_add_vectors\<close> (main.py), on a matrix of \<open>n\<close> vectors of
  the given dimension (\<open>vectors.shape\<close>): the index it creates and then trains on the
  \<open>n\<close> vectors.
\<close>

definition train_and_add_vectors :: "nat \<times> int \<Rightarrow> faiss_index" where
  "train_and_add_vectors shape = create_index (snd shape)"

text \<open>\<open>TheologyDocumentProcessor.build_faiss_index\<close> (data_processor.py).\<close>

definition build_faiss_index :: "nat \<times> int \<Rightarrow> string \<Rightarrow> py_error + faiss_index" where
  "build_faiss_index shape index_type =
     (let dimension = snd shape in
      if index_type = ''IVF_PQ'' then
        (let nlist = min 1024 (int (fst shape) div 10)
         in Inr (IndexIVFPQ dimension nlist 96 8))
      else if index_type = ''FLAT'' then Inr (IndexFlatIP dimension)
      else Inl ValueError)"


section \<open>Retrieval\<close>

text \<open>
  One retained result is the dict \<open>{"content", "source", "score", "metadata"}\<close>. The
  embedding model and the index are collaborators: \<open>model_encode\<close> turns the query into
  a vector, and the index, when there is one, answers a vector and a count with the
  arrays of scores and of positions.
\<close>

record relevant_doc =
  doc_content :: pystr
  doc_source :: pystr
  score :: real
  doc_metadata :: chunk_metadata

record 'v VectorSearchEngine =
  model_encode :: "pystr \<Rightarrow> 'v"
  index :: "('v \<Rightarrow> int \<Rightarrow> py_error + real list \<times> int list) option"
  documents :: "DocumentChunk list"

text \<open>\<open>FAISSIndexManager.search\<close>.\<close>

definition faiss_manager_search ::
  "('v \<Rightarrow> int \<Rightarrow> py_error + real list \<times> int list) option \<Rightarrow> 'v \<Rightarrow> int
     \<Rightarrow> py_error + real list \<times> int list" where
  "faiss_manager_search ix query_vector k =
     (case ix of None \<Rightarrow> Inl ValueError | Some search_fn \<Rightarrow> search_fn query_vector k)"

text \<open>The filtering loop of \<open>VectorSearchEngine.search\<close> over \<open>zip(scores, indices)\<close>.\<close>

fun collect_relevant ::
  "DocumentChunk list \<Rightarrow> (real \<times> int) list \<Rightarrow> relevant_doc list \<Rightarrow> py_error + relevant_doc list" where
  "collect_relevant docs [] relevant_docs = Inr relevant_docs"
| "collect_relevant docs ((s, idx) # rest) relevant_docs =
     (if idx < int (length docs) \<and> s > 0.3 then
        (case py_nth docs idx of
           Inl e \<Rightarrow> Inl e
         | Inr doc \<Rightarrow>
             collect_relevant docs rest
               (relevant_docs @
                [\<lparr>doc_content = content doc, doc_source = source doc, score = s,
                  doc_metadata = metadata doc\<rparr>]))
      else collect_relevant docs rest relevant_docs)"

text \<open>\<open>VectorSearchEngine.search\<close>, without the elapsed time it also returns.\<close>

definition search :: "'v VectorSearchEngine \<Rightarrow> pystr \<Rightarrow> int \<Rightarrow> py_error + relevant_doc list" where
  "search self query top_k =
     (case faiss_manager_search (index self) (model_encode self query) (top_k * 2) of
        Inl e \<Rightarrow> Inl e
      | Inr (scores, indices) \<Rightarrow>
          (case collect_relevant (documents self) (zip scores indices) [] of
             Inl e \<Rightarrow> Inl e
           | Inr relevant_docs \<Rightarrow> Inr (py_slice relevant_docs 0 top_k)))"


text \<open>
  For stating properties: the test of the filtering loop, and the result built from a
  candidate whose position is a valid non-negative offset.
\<close>

definition retained :: "DocumentChunk list \<Rightarrow> real \<times> int \<Rightarrow> bool" where
  "retained docs cand \<longleftrightarrow> snd cand < int (length docs) \<and> 0.3 < fst cand"

definition as_relevant :: "DocumentChunk list \<Rightarrow> real \<times> int \<Rightarrow> relevant_doc" where
  "as_relevant docs cand =
     \<lparr>doc_content = content (docs ! nat (snd cand)), doc_source = source (docs ! nat (snd cand)),
      score = fst cand, doc_metadata = metadata (docs ! nat (snd cand))\<rparr>"


section \<open>Confidence\<close>

text \<open>
  The confidence that \<open>vector_search\<close> reports: \<open>0.0\<close> on the early return for an empty
  retrieval, otherwise the boosted, clamped mean.
\<close>

definition confidence_score :: "relevant_doc list \<Rightarrow> real" where
  "confidence_score relevant_docs =
     (if relevant_docs = [] then 0.0
      else
        let avg_score = sum_list (map score relevant_docs) / real (length relevant_docs)
        in min (avg_score * 1.2) 1.0)"



section \<open>Properties of the response cache\<close>

subsection \<open>The oldest key that \<open>min\<close> selects\<close>

lemma foldl_min_index:
  fixes f :: "'a \<Rightarrow> 'b::linorder"
  shows "\<exists>j<length (x # xs).
           foldl (\<lambda>best y. if f y < f best then y else best) x xs = (x # xs) ! j
         \<and> (\<forall>i<length (x # xs). f ((x # xs) ! j) \<le> f ((x # xs) ! i))
         \<and> (\<forall>i<j. f ((x # xs) ! j) < f ((x # xs) ! i))"
proof (induction xs rule: rev_induct)
  case Nil
  show ?case by simp
next
  case (snoc y xs)
  let ?step = "\<lambda>best y. if f y < f best then y else best"
  let ?zs = "x # xs"
  from snoc obtain j where j: "j < length ?zs" "foldl ?step x xs = ?zs ! j"
    and jmin: "\<forall>i<length ?zs. f (?zs ! j) \<le> f (?zs ! i)"
    and jfirst: "\<forall>i<j. f (?zs ! j) < f (?zs ! i)"
    by blast
  have nth_old: "\<And>i. i < length ?zs \<Longrightarrow> (x # xs @ [y]) ! i = ?zs ! i"
    by (metis append_Cons nth_append)
  have nth_new: "(x # xs @ [y]) ! length ?zs = y"
    by (metis append_Cons nth_append_length)
  show ?case
  proof (cases "f y < f (?zs ! j)")
    case True
    have "foldl ?step x (xs @ [y]) = (x # xs @ [y]) ! length ?zs"
      using True j nth_new by simp
    moreover have "\<forall>i<length (x # xs @ [y]). f ((x # xs @ [y]) ! length ?zs) \<le> f ((x # xs @ [y]) ! i)"
    proof (intro allI impI)
      fix i assume "i < length (x # xs @ [y])"
      then consider "i < length ?zs" | "i = length ?zs" by fastforce
      then show "f ((x # xs @ [y]) ! length ?zs) \<le> f ((x # xs @ [y]) ! i)"
      proof cases
        case 1
        then show ?thesis using True jmin nth_old[OF 1] nth_new by (metis less_le_not_le linorder_le_cases order_trans)
      next
        case 2
        then show ?thesis by simp
      qed
    qed
    moreover have "\<forall>i<length ?zs. f ((x # xs @ [y]) ! length ?zs) < f ((x # xs @ [y]) ! i)"
    proof (intro allI impI)
      fix i assume 1: "i < length ?zs"
      show "f ((x # xs @ [y]) ! length ?zs) < f ((x # xs @ [y]) ! i)"
        using True jmin 1 nth_old[OF 1] nth_new by (metis less_le_trans)
    qed
    ultimately show ?thesis
      by (intro exI[of _ "length ?zs"]) simp
  next
    case False
    have "foldl ?step x (xs @ [y]) = (x # xs @ [y]) ! j"
      using False j nth_old by simp
    moreover have "\<forall>i<length (x # xs @ [y]). f ((x # xs @ [y]) ! j) \<le> f ((x # xs @ [y]) ! i)"
    proof (intro allI impI)
      fix i assume "i < length (x # xs @ [y])"
      then consider "i < length ?zs" | "i = length ?zs" by fastforce
      then show "f ((x # xs @ [y]) ! j) \<le> f ((x # xs @ [y]) ! i)"
      proof cases
        case 1
        then show ?thesis using jmin j nth_old by metis
      next
        case 2
        then show ?thesis using False j nth_old[OF j(1)] nth_new by (metis not_less)
      qed
    qed
    moreover have "\<forall>i<j. f ((x # xs @ [y]) ! j) < f ((x # xs @ [y]) ! i)"
      using jfirst j nth_old by (metis less_trans)
    ultimately show ?thesis
      using j(1) by (intro exI[of _ j]) simp
  qed
qed

lemma py_min_index:
  fixes f :: "'a \<Rightarrow> 'b::linorder"
  assumes "xs \<noteq> []"
  shows "\<exists>j<length xs. py_min f xs = Inr (xs ! j)
         \<and> (\<forall>i<length xs. f (xs ! j) \<le> f (xs ! i))
         \<and> (\<forall>i<j. f (xs ! j) < f (xs ! i))"
proof -
  from assms obtain x ys where xs: "xs = x # ys" by (cases xs) auto
  show ?thesis unfolding xs py_min.simps using foldl_min_index[of x ys f] by blast
qed

subsection \<open>One \<open>set\<close> call\<close>

lemma update_fresh: "k \<notin> fst ` set al \<Longrightarrow> AList.update k v al = al @ [(k, v)]"
  by (induction al) auto

lemma delete_nth:
  "distinct (map fst al) \<Longrightarrow> j < length al \<Longrightarrow>
   AList.delete (fst (al ! j)) al = take j al @ drop (Suc j) al"
proof (induction al arbitrary: j)
  case Nil
  then show ?case by simp
next
  case (Cons p al)
  show ?case
  proof (cases j)
    case 0
    then show ?thesis using Cons.prems by simp
  next
    case (Suc j')
    then have "fst (al ! j') \<noteq> fst p" using Cons.prems
      by (metis Suc_less_eq distinct.simps(2) length_Cons list.simps(9) nth_map nth_mem length_map)
    then show ?thesis using Suc Cons by simp
  qed
qed

lemma length_delete_less:
  "k \<in> fst ` set al \<Longrightarrow> length (AList.delete k al) < length al"
  by (induction al) (force simp: less_Suc_eq_le AList.length_delete_le)+

lemma length_update_le: "length (AList.update k v al) \<le> Suc (length al)"
  by (induction al) auto

lemma length_update_present: "k \<in> fst ` set al \<Longrightarrow> length (AList.update k v al) = length al"
  by (induction al) auto

lemma set_cache_full:
  assumes full: "max_size self \<le> int (length (cache self))" and ne: "cache self \<noteq> []"
  shows "\<exists>j<length (cache self).
           set_cache md5 lower now self query d =
             Inr (self\<lparr>cache := AList.update (get_cache_key md5 lower query)
                    \<lparr>data = d, timestamp = now\<rparr>
                    (AList.delete (fst (cache self ! j)) (cache self))\<rparr>)
         \<and> (\<forall>i<length (cache self).
               timestamp (the (map_of (cache self) (fst (cache self ! j))))
                 \<le> timestamp (the (map_of (cache self) (fst (cache self ! i)))))
         \<and> (\<forall>i<j.
               timestamp (the (map_of (cache self) (fst (cache self ! j))))
                 < timestamp (the (map_of (cache self) (fst (cache self ! i)))))"
proof -
  let ?f = "\<lambda>k. timestamp (the (map_of (cache self) k))"
  let ?ks = "map fst (cache self)"
  from ne have "?ks \<noteq> []" by simp
  from py_min_index[OF this, of ?f]
  obtain j where j: "j < length ?ks" "py_min ?f ?ks = Inr (?ks ! j)"
    and jmin: "\<forall>i<length ?ks. ?f (?ks ! j) \<le> ?f (?ks ! i)"
    and jfirst: "\<forall>i<j. ?f (?ks ! j) < ?f (?ks ! i)"
    by blast
  have kj: "?ks ! j = fst (cache self ! j)" using j(1) by simp
  have "set_cache md5 lower now self query d =
          Inr (self\<lparr>cache := AList.update (get_cache_key md5 lower query)
                 \<lparr>data = d, timestamp = now\<rparr>
                 (AList.delete (fst (cache self ! j)) (cache self))\<rparr>)"
    using full j(2) kj by (simp add: set_cache_def Let_def)
  moreover have "\<forall>i<length (cache self). ?f (fst (cache self ! j)) \<le> ?f (fst (cache self ! i))"
    using jmin j(1) by simp
  moreover have "\<forall>i<j. ?f (fst (cache self ! j)) < ?f (fst (cache self ! i))"
    using jfirst j(1) by simp
  ultimately show ?thesis using j(1) by auto
qed

lemma set_cache_not_full:
  assumes "int (length (cache self)) < max_size self"
  shows "set_cache md5 lower now self query d =
           Inr (self\<lparr>cache := AList.update (get_cache_key md5 lower query)
                  \<lparr>data = d, timestamp = now\<rparr> (cache self)\<rparr>)"
  using assms by (simp add: set_cache_def Let_def)

lemma set_cache_empty_full:
  assumes "max_size self \<le> int (length (cache self))" "cache self = []"
  shows "set_cache md5 lower now self query d = Inl ValueError"
  using assms by (simp add: set_cache_def Let_def)

lemma set_cache_bounded:
  assumes le: "int (length (cache self)) \<le> max_size self"
    and ok: "set_cache md5 lower now self query d = Inr self'"
  shows "int (length (cache self')) \<le> max_size self' \<and> max_size self' = max_size self
         \<and> duration self' = duration self"
proof (cases "int (length (cache self)) < max_size self")
  case True
  from set_cache_not_full[OF True, of md5 lower now query d] ok
  have "self' = self\<lparr>cache := AList.update (get_cache_key md5 lower query)
                  \<lparr>data = d, timestamp = now\<rparr> (cache self)\<rparr>" by simp
  then show ?thesis
    using True length_update_le[of "get_cache_key md5 lower query" "\<lparr>data = d, timestamp = now\<rparr>" "cache self"]
    by simp
next
  case False
  then have full: "max_size self \<le> int (length (cache self))" by simp
  have ne: "cache self \<noteq> []"
    using set_cache_empty_full[OF full, of md5 lower now query d] ok by auto
  from set_cache_full[OF full ne, of md5 lower now query d] ok
  obtain j where j: "j < length (cache self)"
    and s: "self' = self\<lparr>cache := AList.update (get_cache_key md5 lower query)
                    \<lparr>data = d, timestamp = now\<rparr>
                    (AList.delete (fst (cache self ! j)) (cache self))\<rparr>"
    by auto
  have "fst (cache self ! j) \<in> fst ` set (cache self)" using j by simp
  from length_delete_less[OF this]
  have "length (AList.delete (fst (cache self ! j)) (cache self)) < length (cache self)" .
  then show ?thesis
    using s le length_update_le[of "get_cache_key md5 lower query" "\<lparr>data = d, timestamp = now\<rparr>"
        "AList.delete (fst (cache self ! j)) (cache self)"]
    by simp
qed

lemma puts_bounded:
  "int (length (cache self)) \<le> max_size self \<Longrightarrow>
   int (length (cache (puts md5 lower self calls))) \<le> max_size self
   \<and> max_size (puts md5 lower self calls) = max_size self"
proof (induction calls arbitrary: self)
  case Nil
  then show ?case by simp
next
  case (Cons c calls)
  obtain query d now where c: "c = (query, d, now)" by (cases c) auto
  show ?case
  proof (cases "set_cache md5 lower now self query d")
    case (Inl e)
    then show ?thesis using Cons c by simp
  next
    case (Inr self')
    from set_cache_bounded[OF Cons.prems Inr]
    have b: "int (length (cache self')) \<le> max_size self'" "max_size self' = max_size self" by simp_all
    from Cons.IH[OF b(1)] b(2) show ?thesis using Inr c by simp
  qed
qed

subsection \<open>Sequences of \<open>set\<close> calls with fresh keys\<close>

lemma keys_stored_entry: "map fst (map (stored_entry md5 lower) calls) = map (call_key md5 lower) calls"
  by (simp add: stored_entry_def)

lemma puts_append:
  "puts md5 lower self (xs @ ys) = puts md5 lower (puts md5 lower self xs) ys"
  by (induction xs arbitrary: self) (auto split: sum.splits)

lemma puts_fresh:
  assumes "distinct (map (call_key md5 lower) calls)"
    and "fst ` set (cache self) \<inter> call_key md5 lower ` set calls = {}"
    and "int (length (cache self)) + int (length calls) \<le> max_size self"
  shows "cache (puts md5 lower self calls) = cache self @ map (stored_entry md5 lower) calls
         \<and> max_size (puts md5 lower self calls) = max_size self
         \<and> duration (puts md5 lower self calls) = duration self"
  using assms
proof (induction calls arbitrary: self)
  case Nil
  then show ?case by simp
next
  case (Cons c calls)
  obtain query d now where c: "c = (query, d, now)" by (cases c) auto
  let ?k = "get_cache_key md5 lower query"
  let ?self' = "self\<lparr>cache := AList.update ?k \<lparr>data = d, timestamp = now\<rparr> (cache self)\<rparr>"
  have lt: "int (length (cache self)) < max_size self" using Cons.prems(3) by simp
  have step: "set_cache md5 lower now self query d = Inr ?self'"
    by (rule set_cache_not_full[OF lt])
  have ck: "call_key md5 lower c = ?k" using c by (simp add: call_key_def)
  have fresh: "?k \<notin> fst ` set (cache self)"
    using Cons.prems(2) ck by auto
  have upd: "cache ?self' = cache self @ [stored_entry md5 lower c]"
    using update_fresh[OF fresh] c by (simp add: stored_entry_def call_key_def)
  have d': "distinct (map (call_key md5 lower) calls)"
    using Cons.prems(1) by simp
  have disj: "fst ` set (cache ?self') \<inter> call_key md5 lower ` set calls = {}"
  proof -
    have "call_key md5 lower c \<notin> call_key md5 lower ` set calls"
      using Cons.prems(1) by simp
    moreover have "fst ` set (cache self) \<inter> call_key md5 lower ` set calls = {}"
      using Cons.prems(2) by auto
    moreover have "fst (stored_entry md5 lower c) = call_key md5 lower c"
      by (simp add: stored_entry_def)
    ultimately show ?thesis unfolding upd by auto
  qed
  have len: "int (length (cache ?self')) + int (length calls) \<le> max_size ?self'"
    unfolding upd using Cons.prems(3) by simp
  from Cons.IH[OF d' disj len]
  have "cache (puts md5 lower ?self' calls) = cache ?self' @ map (stored_entry md5 lower) calls"
    and "max_size (puts md5 lower ?self' calls) = max_size self"
    and "duration (puts md5 lower ?self' calls) = duration self"
    by simp_all
  then show ?case using step c upd by simp
qed

lemma map_of_nth_distinct:
  "distinct (map fst al) \<Longrightarrow> i < length al \<Longrightarrow> map_of al (fst (al ! i)) = Some (snd (al ! i))"
  by (metis map_of_is_SomeI nth_mem prod.collapse)

lemma puts_overflow:
  assumes empty: "cache self = []" and cap: "max_size self = int C" and pos: "0 < C"
    and len: "length calls = Suc C"
    and dist: "distinct (map (call_key md5 lower) calls)"
  shows "\<exists>j<C. cache (puts md5 lower self calls)
                  = map (stored_entry md5 lower) (take j calls @ drop (Suc j) calls)
         \<and> (\<forall>i<C. snd (snd (calls ! j)) \<le> snd (snd (calls ! i)))
         \<and> (\<forall>i<j. snd (snd (calls ! j)) < snd (snd (calls ! i)))"
proof -
  let ?e = "stored_entry md5 lower"
  let ?first = "take C calls"
  let ?lastc = "calls ! C"
  have split: "calls = ?first @ [?lastc]"
    using len by (simp add: take_Suc_conv_app_nth[symmetric])
  have dall: "distinct (map (call_key md5 lower) ?first @ [call_key md5 lower ?lastc])"
    using dist split by (metis list.simps(8,9) map_append)
  have dfirst: "distinct (map (call_key md5 lower) ?first)"
    using dall by simp
  have lfresh: "call_key md5 lower ?lastc \<notin> call_key md5 lower ` set ?first"
    using dall by simp
  let ?mid = "puts md5 lower self ?first"
  have mid: "cache ?mid = map ?e ?first" "max_size ?mid = int C"
    using puts_fresh[of md5 lower ?first self] dfirst empty cap len by simp_all
  have lmid: "length (cache ?mid) = C" using mid(1) len by simp
  have dmid: "distinct (map fst (cache ?mid))"
    using dfirst unfolding mid(1) keys_stored_entry .
  obtain query d now where lc: "?lastc = (query, d, now)" by (cases ?lastc) auto
  let ?k = "get_cache_key md5 lower query"
  have full: "max_size ?mid \<le> int (length (cache ?mid))" using mid(2) lmid by simp
  have ne: "cache ?mid \<noteq> []" using lmid pos by auto
  from set_cache_full[OF full ne, of md5 lower now query d]
  obtain j where j: "j < C"
    and step: "set_cache md5 lower now ?mid query d =
                 Inr (?mid\<lparr>cache := AList.update ?k \<lparr>data = d, timestamp = now\<rparr>
                        (AList.delete (fst (cache ?mid ! j)) (cache ?mid))\<rparr>)"
    and jmin: "\<forall>i<C. timestamp (the (map_of (cache ?mid) (fst (cache ?mid ! j))))
                 \<le> timestamp (the (map_of (cache ?mid) (fst (cache ?mid ! i))))"
    and jfirst: "\<forall>i<j. timestamp (the (map_of (cache ?mid) (fst (cache ?mid ! j))))
                 < timestamp (the (map_of (cache ?mid) (fst (cache ?mid ! i))))"
    unfolding lmid by blast
  have ts: "timestamp (the (map_of (cache ?mid) (fst (cache ?mid ! i)))) = snd (snd (calls ! i))"
    if "i < C" for i
  proof -
    have "map_of (cache ?mid) (fst (cache ?mid ! i)) = Some (snd (cache ?mid ! i))"
      using map_of_nth_distinct[OF dmid] that lmid by simp
    moreover have "cache ?mid ! i = ?e (calls ! i)"
      using that len by (simp add: mid(1))
    ultimately show ?thesis
      by (simp add: stored_entry_def)
  qed
  have del: "AList.delete (fst (cache ?mid ! j)) (cache ?mid)
               = map ?e (take j ?first @ drop (Suc j) ?first)"
    using delete_nth[OF dmid, of j] j lmid by (simp add: mid(1) take_map drop_map)
  have knew: "?k = call_key md5 lower ?lastc" using lc by (simp add: call_key_def)
  have "set (take j ?first @ drop (Suc j) ?first) \<subseteq> set ?first"
    using set_take_subset[of j ?first] set_drop_subset[of "Suc j" ?first] by auto
  then have fresh: "?k \<notin> fst ` set (map ?e (take j ?first @ drop (Suc j) ?first))"
    using lfresh unfolding knew by (auto simp: stored_entry_def)
  have "puts md5 lower self calls = puts md5 lower ?mid [?lastc]"
    using puts_append[of md5 lower self ?first "[?lastc]"] split by simp
  also have "\<dots> = ?mid\<lparr>cache := AList.update ?k \<lparr>data = d, timestamp = now\<rparr>
                        (AList.delete (fst (cache ?mid ! j)) (cache ?mid))\<rparr>"
    using step lc by simp
  finally have "cache (puts md5 lower self calls)
      = map ?e (take j ?first @ drop (Suc j) ?first) @ [?e ?lastc]"
    using update_fresh[OF fresh] del lc by (simp add: stored_entry_def call_key_def)
  also have "\<dots> = map ?e (take j calls @ drop (Suc j) calls)"
  proof -
    have "take j calls = take j ?first" using j by (simp add: min_def)
    moreover have "drop (Suc j) (?first @ [?lastc]) = drop (Suc j) ?first @ [?lastc]"
      using j len by simp
    then have "drop (Suc j) calls = drop (Suc j) ?first @ [?lastc]"
      using split by simp
    ultimately show ?thesis by simp
  qed
  finally have "cache (puts md5 lower self calls) = map ?e (take j calls @ drop (Suc j) calls)" .
  moreover have "\<forall>i<C. snd (snd (calls ! j)) \<le> snd (snd (calls ! i))"
    using jmin ts j by simp
  moreover have "\<forall>i<j. snd (snd (calls ! j)) < snd (snd (calls ! i))"
    using jfirst ts j by simp
  ultimately show ?thesis using j by blast
qed

lemma strip_single: "\<not> isspace c \<Longrightarrow> strip [c] = [c]"
  by (simp add: strip_def)

subsection \<open>Reading the cache\<close>

text \<open>
  C6. A read of a present key younger than the TTL returns the stored payload and leaves
  the cache as it is; a read of a present key whose age has reached the TTL returns
  absent and removes that key; a read of an absent key returns absent and leaves the
  cache unchanged.
\<close>

theorem get_cache_cases:
  "(map_of (cache self) (get_cache_key md5 lower query) = Some cached
      \<and> now - timestamp cached < duration self
    \<longrightarrow> get_cache md5 lower now self query = (Some (data cached), self))
   \<and> (map_of (cache self) (get_cache_key md5 lower query) = Some cached
      \<and> duration self \<le> now - timestamp cached
    \<longrightarrow> fst (get_cache md5 lower now self query) = None
      \<and> map_of (cache (snd (get_cache md5 lower now self query)))
          = (map_of (cache self))(get_cache_key md5 lower query := None)
      \<and> cache (snd (get_cache md5 lower now self query))
          = AList.delete (get_cache_key md5 lower query) (cache self)
      \<and> max_size (snd (get_cache md5 lower now self query)) = max_size self
      \<and> duration (snd (get_cache md5 lower now self query)) = duration self)
   \<and> (map_of (cache self) (get_cache_key md5 lower query) = None
    \<longrightarrow> get_cache md5 lower now self query = (None, self))"
  by (simp add: get_cache_def Let_def AList.delete_conv')

theorem get_cache_cases_witness:
  "get_cache (\<lambda>s. s) (\<lambda>s. s) 200
      \<lparr>cache = [([97], \<lparr>data = 7::nat, timestamp = 100\<rparr>)], max_size = 2000, duration = 86400\<rparr> [97]
     = (Some 7, \<lparr>cache = [([97], \<lparr>data = 7, timestamp = 100\<rparr>)], max_size = 2000, duration = 86400\<rparr>)
   \<and> get_cache (\<lambda>s. s) (\<lambda>s. s) 86500
      \<lparr>cache = [([97], \<lparr>data = 7::nat, timestamp = 100\<rparr>)], max_size = 2000, duration = 86400\<rparr> [97]
     = (None, \<lparr>cache = [], max_size = 2000, duration = 86400\<rparr>)
   \<and> get_cache (\<lambda>s. s) (\<lambda>s. s) 200
      \<lparr>cache = [([97], \<lparr>data = 7::nat, timestamp = 100\<rparr>)], max_size = 2000, duration = 86400\<rparr> [98]
     = (None, \<lparr>cache = [([97], \<lparr>data = 7, timestamp = 100\<rparr>)], max_size = 2000, duration = 86400\<rparr>)"
proof -
  let ?self = "\<lparr>cache = [([97], \<lparr>data = 7::nat, timestamp = 100\<rparr>)], max_size = 2000,
                 duration = 86400\<rparr> :: (pystr, nat) CacheManager"
  let ?c = "\<lparr>data = 7::nat, timestamp = 100\<rparr>"
  have k97: "get_cache_key (\<lambda>s. s) (\<lambda>s. s) [97] = [97]"
    and k98: "get_cache_key (\<lambda>s. s) (\<lambda>s. s) [98] = [98]"
    by (simp_all add: get_cache_key_def strip_def isspace_def)
  have fresh: "map_of (cache ?self) (get_cache_key (\<lambda>s. s) (\<lambda>s. s) [97]) = Some ?c
                \<and> 200 - timestamp ?c < duration ?self"
    by (simp add: k97)
  have stale: "map_of (cache ?self) (get_cache_key (\<lambda>s. s) (\<lambda>s. s) [97]) = Some ?c
                \<and> duration ?self \<le> 86500 - timestamp ?c"
    by (simp add: k97)
  have absent: "map_of (cache ?self) (get_cache_key (\<lambda>s. s) (\<lambda>s. s) [98]) = None"
    by (simp add: k98)
  have 1: "get_cache (\<lambda>s. s) (\<lambda>s. s) 200 ?self [97] = (Some (data ?c), ?self)"
    using get_cache_cases[where self = ?self and ?md5.0 = "\<lambda>s. s" and lower = "\<lambda>s. s"
        and query = "[97]" and cached = ?c and now = 200] fresh by blast
  have 2: "fst (get_cache (\<lambda>s. s) (\<lambda>s. s) 86500 ?self [97]) = None
      \<and> cache (snd (get_cache (\<lambda>s. s) (\<lambda>s. s) 86500 ?self [97]))
          = AList.delete (get_cache_key (\<lambda>s. s) (\<lambda>s. s) [97]) (cache ?self)
      \<and> max_size (snd (get_cache (\<lambda>s. s) (\<lambda>s. s) 86500 ?self [97])) = max_size ?self
      \<and> duration (snd (get_cache (\<lambda>s. s) (\<lambda>s. s) 86500 ?self [97])) = duration ?self"
    using get_cache_cases[where self = ?self and ?md5.0 = "\<lambda>s. s" and lower = "\<lambda>s. s"
        and query = "[97]" and cached = ?c and now = 86500] stale by blast
  have 3: "get_cache (\<lambda>s. s) (\<lambda>s. s) 200 ?self [98] = (None, ?self)"
    using get_cache_cases[where self = ?self and ?md5.0 = "\<lambda>s. s" and lower = "\<lambda>s. s"
        and query = "[98]" and now = 200] absent by blast
  have expired: "get_cache (\<lambda>s. s) (\<lambda>s. s) 86500 ?self [97]
              = (None, \<lparr>cache = [], max_size = 2000, duration = 86400\<rparr>)"
    using 2 by (cases "get_cache (\<lambda>s. s) (\<lambda>s. s) 86500 ?self [97]") (simp add: k97)
  show ?thesis using 1 expired 3 by simp
qed

subsection \<open>Capacity and eviction\<close>

text \<open>
  C1. From a cache of at most \<open>max_size\<close> entries, every sequence of \<open>set\<close> calls leaves at
  most \<open>max_size\<close> entries. A \<open>set\<close> on a cache holding exactly \<open>max_size\<close> entries
  deletes, before it inserts, an entry whose timestamp is the smallest of all stored ones.
  Writing 2001 queries with pairwise distinct keys into an empty cache of capacity 2000
  leaves exactly 2000 entries: all that were written except one of the first 2000, the
  first of those with the smallest timestamp.
\<close>

theorem cache_capacity_oldest_eviction:
  "(int (length (cache self)) \<le> max_size self \<longrightarrow>
      int (length (cache (puts md5 lower self calls))) \<le> max_size self
      \<and> max_size (puts md5 lower self calls) = max_size self)
   \<and> (int (length (cache self)) = max_size self \<and> cache self \<noteq> []
        \<and> distinct (map fst (cache self)) \<longrightarrow>
      (\<exists>j<length (cache self).
          set_cache md5 lower now self query d =
            Inr (self\<lparr>cache := AList.update (get_cache_key md5 lower query)
                   \<lparr>data = d, timestamp = now\<rparr>
                   (AList.delete (fst (cache self ! j)) (cache self))\<rparr>)
        \<and> (\<forall>i<length (cache self).
              timestamp (snd (cache self ! j)) \<le> timestamp (snd (cache self ! i)))))
   \<and> (cache self = [] \<and> max_size self = 2000 \<and> length calls = 2001
        \<and> distinct (map (call_key md5 lower) calls) \<longrightarrow>
      length (cache (puts md5 lower self calls)) = 2000
      \<and> (\<exists>j<2000.
            cache (puts md5 lower self calls)
              = map (stored_entry md5 lower) (take j calls @ drop (Suc j) calls)
          \<and> (\<forall>i<2000. snd (snd (calls ! j)) \<le> snd (snd (calls ! i)))
          \<and> (\<forall>i<j. snd (snd (calls ! j)) < snd (snd (calls ! i)))))"
proof (intro conjI impI)
  assume "int (length (cache self)) \<le> max_size self"
  from puts_bounded[OF this, of md5 lower calls]
  show "int (length (cache (puts md5 lower self calls))) \<le> max_size self"
    and "max_size (puts md5 lower self calls) = max_size self" by simp_all
next
  assume a: "int (length (cache self)) = max_size self \<and> cache self \<noteq> []
        \<and> distinct (map fst (cache self))"
  then have full: "max_size self \<le> int (length (cache self))" and ne: "cache self \<noteq> []"
    and dist: "distinct (map fst (cache self))" by simp_all
  from set_cache_full[OF full ne, of md5 lower now query d]
  obtain j where j: "j < length (cache self)"
    and step: "set_cache md5 lower now self query d =
            Inr (self\<lparr>cache := AList.update (get_cache_key md5 lower query)
                   \<lparr>data = d, timestamp = now\<rparr>
                   (AList.delete (fst (cache self ! j)) (cache self))\<rparr>)"
    and jmin: "\<forall>i<length (cache self).
               timestamp (the (map_of (cache self) (fst (cache self ! j))))
                 \<le> timestamp (the (map_of (cache self) (fst (cache self ! i))))"
    by blast
  have "\<forall>i<length (cache self).
              timestamp (snd (cache self ! j)) \<le> timestamp (snd (cache self ! i))"
    using jmin j map_of_nth_distinct[OF dist] by simp
  with j step show "\<exists>j<length (cache self).
          set_cache md5 lower now self query d =
            Inr (self\<lparr>cache := AList.update (get_cache_key md5 lower query)
                   \<lparr>data = d, timestamp = now\<rparr>
                   (AList.delete (fst (cache self ! j)) (cache self))\<rparr>)
        \<and> (\<forall>i<length (cache self).
              timestamp (snd (cache self ! j)) \<le> timestamp (snd (cache self ! i)))"
    by blast
next
  assume a: "cache self = [] \<and> max_size self = 2000 \<and> length calls = 2001
        \<and> distinct (map (call_key md5 lower) calls)"
  then have e: "cache self = []" and c: "max_size self = int 2000" and l: "length calls = Suc 2000"
    and d: "distinct (map (call_key md5 lower) calls)" by simp_all
  from puts_overflow[OF e c _ l d]
  obtain j where j: "j < 2000"
    and r: "cache (puts md5 lower self calls)
              = map (stored_entry md5 lower) (take j calls @ drop (Suc j) calls)"
    and m: "\<forall>i<2000. snd (snd (calls ! j)) \<le> snd (snd (calls ! i))"
    and f: "\<forall>i<j. snd (snd (calls ! j)) < snd (snd (calls ! i))"
    by auto
  have "length (take j calls @ drop (Suc j) calls) = 2000" using j l by simp
  then show "length (cache (puts md5 lower self calls)) = 2000" using r by simp
  from j r m f show "\<exists>j<2000.
            cache (puts md5 lower self calls)
              = map (stored_entry md5 lower) (take j calls @ drop (Suc j) calls)
          \<and> (\<forall>i<2000. snd (snd (calls ! j)) \<le> snd (snd (calls ! i)))
          \<and> (\<forall>i<j. snd (snd (calls ! j)) < snd (snd (calls ! i)))"
    by blast
qed

theorem cache_capacity_oldest_eviction_witness:
  "length (cache (puts (\<lambda>s. s) (\<lambda>s. s) \<lparr>cache = [], max_size = 2000, duration = 86400\<rparr>
       (map (\<lambda>i. ([100000 + i], i, real i)) [0..<2001]))) = 2000
   \<and> int (length (cache (puts (\<lambda>s. s) (\<lambda>s. s) \<lparr>cache = [], max_size = 2000, duration = 86400\<rparr>
       (map (\<lambda>i. ([100000 + i], i, real i)) [0..<2001])))) \<le> 2000
   \<and> set_cache (\<lambda>s. s) (\<lambda>s. s) 30
        \<lparr>cache = [([120], \<lparr>data = 1::nat, timestamp = 20\<rparr>), ([121], \<lparr>data = 2, timestamp = 10\<rparr>)],
         max_size = 2, duration = 86400\<rparr> [122] 3
      = Inr \<lparr>cache = [([120], \<lparr>data = 1, timestamp = 20\<rparr>), ([122], \<lparr>data = 3, timestamp = 30\<rparr>)],
         max_size = 2, duration = 86400\<rparr>"
proof -
  let ?calls = "map (\<lambda>i. ([100000 + i], i, real i)) [0..<2001]"
  let ?self = "\<lparr>cache = [], max_size = 2000, duration = 86400\<rparr> :: (pystr, nat) CacheManager"
  have key: "call_key (\<lambda>s. s) (\<lambda>s. s) ([100000 + i], i, real i) = [100000 + i]" for i :: nat
    by (simp add: call_key_def get_cache_key_def strip_single isspace_def)
  have eq: "map (call_key (\<lambda>s. s) (\<lambda>s. s)) ?calls = map (\<lambda>i. [100000 + i]) [0..<2001]"
    by (simp add: key comp_def)
  have d: "distinct (map (call_key (\<lambda>s. s) (\<lambda>s. s)) ?calls)"
    unfolding eq by (simp add: distinct_map inj_on_def)
  have l: "length ?calls = 2001" by simp
  have h: "cache ?self = [] \<and> max_size ?self = 2000 \<and> length ?calls = 2001
        \<and> distinct (map (call_key (\<lambda>s. s) (\<lambda>s. s)) ?calls)"
    using d l by simp
  have b: "int (length (cache ?self)) \<le> max_size ?self" by simp
  note t = cache_capacity_oldest_eviction[where self = ?self and calls = ?calls
      and ?md5.0 = "\<lambda>s. s" and lower = "\<lambda>s. s"]
  have 1: "length (cache (puts (\<lambda>s. s) (\<lambda>s. s) ?self ?calls)) = 2000"
    using t h by blast
  have 2: "int (length (cache (puts (\<lambda>s. s) (\<lambda>s. s) ?self ?calls))) \<le> 2000"
    using t b by simp
  have 3: "set_cache (\<lambda>s. s) (\<lambda>s. s) 30
        \<lparr>cache = [([120], \<lparr>data = 1::nat, timestamp = 20\<rparr>), ([121], \<lparr>data = 2, timestamp = 10\<rparr>)],
         max_size = 2, duration = 86400\<rparr> [122] 3
      = Inr \<lparr>cache = [([120], \<lparr>data = 1, timestamp = 20\<rparr>), ([122], \<lparr>data = 3, timestamp = 30\<rparr>)],
         max_size = 2, duration = 86400\<rparr>"
    by (simp add: set_cache_def get_cache_key_def strip_single isspace_def)
  show ?thesis using 1 2 3 by blast
qed

text \<open>
  C10. A \<open>set\<close> whose key is already stored, on a cache holding exactly \<open>max_size\<close>
  entries, still evicts: the key with the smallest timestamp is deleted and then the
  written key is stored with the new value. When the evicted key is not the written one,
  the cache ends strictly below its capacity and no longer holds the evicted key.
\<close>

theorem set_cache_existing_key_at_capacity:
  assumes cap: "int (length (cache self)) = max_size self"
    and present: "get_cache_key md5 lower query \<in> fst ` set (cache self)"
  shows "\<exists>j<length (cache self). \<exists>self'.
           set_cache md5 lower now self query d = Inr self'
         \<and> cache self' = AList.update (get_cache_key md5 lower query)
                            \<lparr>data = d, timestamp = now\<rparr>
                            (AList.delete (fst (cache self ! j)) (cache self))
         \<and> (\<forall>i<length (cache self).
               timestamp (the (map_of (cache self) (fst (cache self ! j))))
                 \<le> timestamp (the (map_of (cache self) (fst (cache self ! i)))))
         \<and> map_of (cache self') (get_cache_key md5 lower query)
               = Some \<lparr>data = d, timestamp = now\<rparr>
         \<and> (fst (cache self ! j) \<noteq> get_cache_key md5 lower query \<longrightarrow>
               length (cache self') < length (cache self)
             \<and> int (length (cache self')) < max_size self'
             \<and> fst (cache self ! j) \<notin> fst ` set (cache self'))"
proof -
  let ?k = "get_cache_key md5 lower query"
  let ?v = "\<lparr>data = d, timestamp = now\<rparr>"
  have full: "max_size self \<le> int (length (cache self))" using cap by simp
  have ne: "cache self \<noteq> []" using present by auto
  from set_cache_full[OF full ne, of md5 lower now query d]
  obtain j where j: "j < length (cache self)"
    and step: "set_cache md5 lower now self query d =
                 Inr (self\<lparr>cache := AList.update ?k ?v
                        (AList.delete (fst (cache self ! j)) (cache self))\<rparr>)"
    and jmin: "\<forall>i<length (cache self).
               timestamp (the (map_of (cache self) (fst (cache self ! j))))
                 \<le> timestamp (the (map_of (cache self) (fst (cache self ! i))))"
    by blast
  let ?o = "fst (cache self ! j)"
  let ?self' = "self\<lparr>cache := AList.update ?k ?v (AList.delete ?o (cache self))\<rparr>"
  have look: "map_of (cache ?self') ?k = Some ?v"
    by (simp add: AList.update_conv')
  have other: "length (cache ?self') < length (cache self)
             \<and> int (length (cache ?self')) < max_size ?self'
             \<and> ?o \<notin> fst ` set (cache ?self')" if neq: "?o \<noteq> ?k"
  proof -
    have "?o \<in> fst ` set (cache self)" using j by simp
    from length_delete_less[OF this]
    have lt: "length (AList.delete ?o (cache self)) < length (cache self)" .
    have "?k \<in> fst ` set (AList.delete ?o (cache self))"
      using present neq by (auto simp: AList.delete_eq)
    from length_update_present[OF this]
    have len: "length (cache ?self') = length (AList.delete ?o (cache self))" by simp
    have "?o \<notin> fst ` set (cache ?self')"
      using neq AList.delete_notin_dom[of ?o "cache self"] by (simp add: AList.dom_update)
    then show ?thesis using lt len cap by simp
  qed
  show ?thesis
    using j step jmin look other
    by (intro exI[of _ j] conjI exI[of _ ?self'] impI) simp_all
qed

theorem set_cache_existing_key_at_capacity_witness:
  "set_cache (\<lambda>s. s) (\<lambda>s. s) 30
      \<lparr>cache = [([120], \<lparr>data = 1::nat, timestamp = 10\<rparr>), ([121], \<lparr>data = 2, timestamp = 20\<rparr>)],
       max_size = 2, duration = 86400\<rparr> [121] 5
     = Inr \<lparr>cache = [([121], \<lparr>data = 5, timestamp = 30\<rparr>)], max_size = 2, duration = 86400\<rparr>
   \<and> (\<exists>j<(2::nat). \<exists>self'.
         set_cache (\<lambda>s. s) (\<lambda>s. s) 30
           \<lparr>cache = [([120], \<lparr>data = 1::nat, timestamp = 10\<rparr>), ([121], \<lparr>data = 2, timestamp = 20\<rparr>)],
            max_size = 2, duration = 86400\<rparr> [121] 5 = Inr self'
       \<and> map_of (cache self') [121] = Some \<lparr>data = 5, timestamp = 30\<rparr>)"
proof -
  let ?self = "\<lparr>cache = [([120], \<lparr>data = 1::nat, timestamp = 10\<rparr>), ([121], \<lparr>data = 2, timestamp = 20\<rparr>)],
                 max_size = 2, duration = 86400\<rparr> :: (pystr, nat) CacheManager"
  have k: "get_cache_key (\<lambda>s. s) (\<lambda>s. s) [121] = [121]"
    by (simp add: get_cache_key_def strip_def isspace_def)
  have cap: "int (length (cache ?self)) = max_size ?self" by simp
  have present: "get_cache_key (\<lambda>s. s) (\<lambda>s. s) [121] \<in> fst ` set (cache ?self)"
    by (simp add: k)
  from set_cache_existing_key_at_capacity[OF cap present, of 30 5]
  obtain j self' where j: "j < length (cache ?self)"
    and s: "set_cache (\<lambda>s. s) (\<lambda>s. s) 30 ?self [121] 5 = Inr self'"
    and m: "map_of (cache self') (get_cache_key (\<lambda>s. s) (\<lambda>s. s) [121])
              = Some \<lparr>data = 5, timestamp = 30\<rparr>"
    by blast
  have "j < (2::nat)" using j by simp
  with s m[unfolded k] have "\<exists>j<(2::nat). \<exists>self'.
         set_cache (\<lambda>s. s) (\<lambda>s. s) 30 ?self [121] 5 = Inr self'
       \<and> map_of (cache self') [121] = Some \<lparr>data = 5, timestamp = 30\<rparr>"
    by blast
  moreover have "set_cache (\<lambda>s. s) (\<lambda>s. s) 30 ?self [121] 5
     = Inr \<lparr>cache = [([121], \<lparr>data = 5, timestamp = 30\<rparr>)], max_size = 2, duration = 86400\<rparr>"
    by (simp add: set_cache_def k)
  ultimately show ?thesis by blast
qed


section \<open>Properties of the chunker\<close>

subsection \<open>Ranges and the loop\<close>


lemma py_range_neg:
  assumes "step < 0" "0 \<le> stop"
  shows "py_range stop step = Inr []"
proof -
  have "- stop - step - 1 < - step" using assms by simp
  then have "(- stop - step - 1) div (- step) \<le> 0"
    using assms(1) by (metis div_pos_neg_trivial div_pos_pos_trivial linorder_not_less neg_0_less_iff_less order_refl zdiv_mono1 zle_diff1_eq linear pos_imp_zdiv_neg_iff)
  then show ?thesis using assms by (simp add: py_range_def)
qed

lemma py_range_zero: "py_range stop 0 = Inl ValueError"
  by (simp add: py_range_def)



lemma chunk_loop_ids:
  "map chunk_id (chunk_loop md5 self text src offs chunks)
     = map chunk_id chunks
       @ map (\<lambda>i. md5 (src @ ascii ''_'' @ str_int i)) (filter (window_kept self text) offs)"
  by (induction offs arbitrary: chunks) (simp_all add: Let_def window_kept_def)

lemma chunk_loop_contents:
  "map content (chunk_loop md5 self text src offs chunks)
     = map content chunks
       @ map (\<lambda>i. strip (py_slice text i (i + chunk_size self))) (filter (window_kept self text) offs)"
  by (induction offs arbitrary: chunks) (simp_all add: Let_def window_kept_def)


lemma theology_loop_ids:
  "map t_id (theology_chunk_loop md5 now self text src meta offs chunks)
     = map t_id chunks
       @ map (\<lambda>i. md5 (src @ ascii ''_'' @ str_int i)) (filter (window_kept self text) offs)"
  by (induction offs arbitrary: chunks) (simp_all add: Let_def window_kept_def)

lemma theology_loop_contents:
  "map t_content (theology_chunk_loop md5 now self text src meta offs chunks)
     = map t_content chunks
       @ map (\<lambda>i. strip (py_slice text i (i + chunk_size self))) (filter (window_kept self text) offs)"
  by (induction offs arbitrary: chunks) (simp_all add: Let_def window_kept_def)







subsection \<open>The kept offsets\<close>









subsection \<open>Evaluating on concrete text\<close>


lemma strip_no_space: "\<forall>c\<in>set s. \<not> isspace c \<Longrightarrow> strip s = s"
proof -
  assume a: "\<forall>c\<in>set s. \<not> isspace c"
  have d: "dropWhile isspace xs = xs" if "\<forall>c\<in>set xs. \<not> isspace c" for xs
    using that by (cases xs) simp_all
  have "dropWhile isspace (rev s) = rev s" using a by (intro d) simp
  then show ?thesis using d[OF a] by (simp add: strip_def)
qed




subsection \<open>Start and end positions\<close>






subsection \<open>A stride that is not positive\<close>

text \<open>
  C4 (as amended). With \<open>overlap = chunk_size\<close> the chunker of main.py fails with the
  \<open>ValueError\<close> that \<open>range\<close> raises for a zero step, and that of data_processor.py does
  so unless the trimmed content is shorter than 20 characters, where it returns the empty
  list; with \<open>overlap > chunk_size\<close> both return the empty list and raise nothing. Both
  functions are total: no configuration makes them loop.
\<close>

theorem chunk_document_nonpositive_stride:
  "(overlap self = chunk_size self \<longrightarrow>
      chunk_document md5 self text src = Inl ValueError
    \<and> theology_chunk_document md5 now self text src meta
        = (if text = [] \<or> length (strip text) < 20 then Inr [] else Inl ValueError))
   \<and> (chunk_size self < overlap self \<longrightarrow>
      chunk_document md5 self text src = Inr []
    \<and> theology_chunk_document md5 now self text src meta = Inr [])"
proof (intro conjI impI)
  assume "overlap self = chunk_size self"
  then show "chunk_document md5 self text src = Inl ValueError"
    and "theology_chunk_document md5 now self text src meta
        = (if text = [] \<or> length (strip text) < 20 then Inr [] else Inl ValueError)"
    by (simp_all add: chunk_document_def theology_chunk_document_def py_range_zero)
next
  assume "chunk_size self < overlap self"
  then have "py_range (int (length text)) (chunk_size self - overlap self) = Inr []"
    by (intro py_range_neg) simp_all
  then show "chunk_document md5 self text src = Inr []"
    and "theology_chunk_document md5 now self text src meta = Inr []"
    by (simp_all add: chunk_document_def theology_chunk_document_def)
qed

theorem chunk_document_nonpositive_stride_witness:
  "overlap \<lparr>chunk_size = 512, overlap = 512\<rparr> = chunk_size \<lparr>chunk_size = 512, overlap = 512\<rparr>
   \<and> chunk_document id \<lparr>chunk_size = 512, overlap = 512\<rparr> (replicate 1000 97) [100]
       = Inl ValueError
   \<and> theology_chunk_document id str_int \<lparr>chunk_size = 512, overlap = 512\<rparr> (replicate 1000 97)
       [100] (None :: (pystr \<times> unit pyval) list option) = Inl ValueError
   \<and> chunk_size \<lparr>chunk_size = 50, overlap = 100\<rparr> < overlap \<lparr>chunk_size = 50, overlap = 100\<rparr>
   \<and> chunk_document id \<lparr>chunk_size = 50, overlap = 100\<rparr> (replicate 1000 97) [100] = Inr []
   \<and> theology_chunk_document id str_int \<lparr>chunk_size = 50, overlap = 100\<rparr> (replicate 1000 97)
       [100] (None :: (pystr \<times> unit pyval) list option) = Inr []"
proof -
  have solid: "\<forall>c\<in>set (replicate 1000 (97::nat)). \<not> isspace c" by (simp add: isspace_def)
  have whole: "strip (replicate 1000 (97::nat)) = replicate 1000 97"
    using solid by (rule strip_no_space)
  show ?thesis
    using chunk_document_nonpositive_stride[of "\<lparr>chunk_size = 512, overlap = 512\<rparr>" id
        "replicate 1000 97" "[100]" str_int "None :: (pystr \<times> unit pyval) list option"]
      chunk_document_nonpositive_stride[of "\<lparr>chunk_size = 50, overlap = 100\<rparr>" id
        "replicate 1000 97" "[100]" str_int "None :: (pystr \<times> unit pyval) list option"]
    by (simp add: whole)
qed

text \<open>
  A failure for every non-positive stride does not hold: with \<open>chunk_size = 50\<close> and \<open>overlap = 100\<close> the call
  succeeds and returns no passage.
\<close>

theorem chunk_document_silent_counterexample:
  "chunk_size \<lparr>chunk_size = 50, overlap = 100\<rparr> \<le> overlap \<lparr>chunk_size = 50, overlap = 100\<rparr>
   \<and> chunk_document id \<lparr>chunk_size = 50, overlap = 100\<rparr> (replicate 200 97) [] = Inr []
   \<and> theology_chunk_document id str_int \<lparr>chunk_size = 50, overlap = 100\<rparr> (replicate 200 97) []
       (None :: (pystr \<times> unit pyval) list option) = Inr []"
proof -
  have r: "py_range 200 (- 50) = Inr []" by code_simp
  show ?thesis
    by (simp add: chunk_document_def theology_chunk_document_def r)
qed

subsection \<open>Determinism of ids and content\<close>




section \<open>Properties of the confidence score\<close>

text \<open>
  C5. The confidence of an empty retrieval is 0; otherwise it is the mean of the scores
  times 1.2, clamped above at 1; and when every score exceeds 0.3 it lies between 0 and 1.
\<close>

theorem confidence_score_mean_clamped:
  "confidence_score [] = 0
   \<and> (relevant_docs \<noteq> [] \<longrightarrow>
        confidence_score relevant_docs
          = min (sum_list (map score relevant_docs) / real (length relevant_docs) * 1.2) 1)
   \<and> ((\<forall>d\<in>set relevant_docs. 0.3 < score d) \<longrightarrow>
        0 \<le> confidence_score relevant_docs \<and> confidence_score relevant_docs \<le> 1)"
proof (intro conjI impI)
  show "confidence_score [] = 0" by (simp add: confidence_score_def)
next
  assume "relevant_docs \<noteq> []"
  then show "confidence_score relevant_docs
          = min (sum_list (map score relevant_docs) / real (length relevant_docs) * 1.2) 1"
    by (simp add: confidence_score_def Let_def)
next
  assume a: "\<forall>d\<in>set relevant_docs. 0.3 < score d"
  have "0 \<le> sum_list (map score relevant_docs)"
    by (rule sum_list_nonneg) (use a in force)
  then have "0 \<le> sum_list (map score relevant_docs) / real (length relevant_docs) * 1.2"
    by simp
  then show "0 \<le> confidence_score relevant_docs"
    by (simp add: confidence_score_def Let_def)
next
  show "confidence_score relevant_docs \<le> 1"
    by (simp add: confidence_score_def Let_def)
qed

theorem confidence_score_mean_clamped_witness:
  "0.3 < score \<lparr>doc_content = [97], doc_source = [115], score = 0.9,
                 doc_metadata = \<lparr>start_pos = 0, end_pos = 1, chunk_index = 0\<rparr>\<rparr>
   \<and> 0.3 < score \<lparr>doc_content = [98], doc_source = [115], score = 0.5,
                 doc_metadata = \<lparr>start_pos = 1, end_pos = 2, chunk_index = 1\<rparr>\<rparr>
   \<and> 0 \<le> confidence_score
        [\<lparr>doc_content = [97], doc_source = [115], score = 0.9,
           doc_metadata = \<lparr>start_pos = 0, end_pos = 1, chunk_index = 0\<rparr>\<rparr>,
         \<lparr>doc_content = [98], doc_source = [115], score = 0.5,
           doc_metadata = \<lparr>start_pos = 1, end_pos = 2, chunk_index = 1\<rparr>\<rparr>]
   \<and> confidence_score
        [\<lparr>doc_content = [97], doc_source = [115], score = 0.9,
           doc_metadata = \<lparr>start_pos = 0, end_pos = 1, chunk_index = 0\<rparr>\<rparr>,
         \<lparr>doc_content = [98], doc_source = [115], score = 0.5,
           doc_metadata = \<lparr>start_pos = 1, end_pos = 2, chunk_index = 1\<rparr>\<rparr>] = 0.84
   \<and> confidence_score
        [\<lparr>doc_content = [97], doc_source = [115], score = 0.9,
           doc_metadata = \<lparr>start_pos = 0, end_pos = 1, chunk_index = 0\<rparr>\<rparr>] = 1"
proof -
  let ?a = "\<lparr>doc_content = [97], doc_source = [115], score = 0.9,
              doc_metadata = \<lparr>start_pos = 0, end_pos = 1, chunk_index = 0\<rparr>\<rparr>"
  let ?b = "\<lparr>doc_content = [98], doc_source = [115], score = 0.5,
              doc_metadata = \<lparr>start_pos = 1, end_pos = 2, chunk_index = 1\<rparr>\<rparr>"
  have h: "\<forall>d\<in>set [?a, ?b]. 0.3 < score d" by simp
  have ha: "0.3 < score ?a" and hb: "0.3 < score ?b" by simp_all
  have lo: "0 \<le> confidence_score [?a, ?b]"
    using confidence_score_mean_clamped[of "[?a, ?b]"] h by blast
  have v: "confidence_score [?a, ?b] = 0.84"
    using confidence_score_mean_clamped[of "[?a, ?b]"] by simp
  have c: "confidence_score [?a] = 1"
    using confidence_score_mean_clamped[of "[?a]"] by simp
  show ?thesis using ha hb lo v c by (intro conjI)
qed


section \<open>Properties of index construction\<close>

lemma build_faiss_index_nlist:
  "build_faiss_index (n, dimension) ''IVF_PQ'' = Inr ix \<Longrightarrow>
   \<exists>nlist. nlist_of ix = Some nlist \<and> nlist \<le> 1024 \<and> nlist \<le> int n div 10"
  by (auto simp: build_faiss_index_def Let_def)

text \<open>
  C7. data_processor.py clamps the cluster count to \<open>min(1024, n // 10)\<close>, as the lemma
  above shows; main.py does not: on the 10 vectors of its sample corpus
  \<open>train_and_add_vectors\<close> builds the index with 1024 clusters, above \<open>10 // 10 = 1\<close>.
\<close>

theorem create_index_ignores_corpus_size:
  "nlist_of (train_and_add_vectors (10, 768)) = Some 1024
   \<and> \<not> (1024 \<le> int 10 div 10)
   \<and> build_faiss_index (10, 768) ''IVF_PQ'' = Inr (IndexIVFPQ 768 1 96 8)"
  by (simp add: train_and_add_vectors_def create_index_def Config_INDEX_TYPE_def
      Config_NLIST_def Config_M_def Config_NBITS_def build_faiss_index_def)


section \<open>Properties of retrieval\<close>

lemma collect_relevant_nonneg:
  assumes "\<forall>cand\<in>set cands. 0 \<le> snd cand"
  shows "collect_relevant docs cands acc
           = Inr (acc @ map (as_relevant docs) (filter (retained docs) cands))"
  using assms
proof (induction cands arbitrary: acc)
  case Nil
  then show ?case by simp
next
  case (Cons cand cands)
  obtain s idx where cand: "cand = (s, idx)" by (cases cand)
  have idx: "0 \<le> idx" using Cons.prems cand by simp
  have rest: "\<forall>cand\<in>set cands. 0 \<le> snd cand" using Cons.prems by simp
  show ?case
  proof (cases "retained docs cand")
    case True
    then have "py_nth docs idx = Inr (docs ! nat idx)"
      using idx cand by (simp add: py_nth_def retained_def)
    then show ?thesis
      using True cand Cons.IH[OF rest] by (simp add: retained_def as_relevant_def)
  next
    case False
    then show ?thesis
      using cand Cons.IH[OF rest] by (auto simp: retained_def)
  qed
qed

lemma search_nonneg_positions:
  assumes ix: "index self = Some search_fn"
    and ans: "search_fn (model_encode self query) (top_k * 2) = Inr (scores, indices)"
    and nonneg: "\<forall>idx\<in>set indices. 0 \<le> idx" and k: "0 \<le> top_k"
  shows "search self query top_k
           = Inr (take (nat top_k)
                    (map (as_relevant (documents self))
                       (filter (retained (documents self)) (zip scores indices))))"
proof -
  have "\<forall>cand\<in>set (zip scores indices). 0 \<le> snd cand"
    using nonneg by (auto dest: set_zip_rightD)
  from collect_relevant_nonneg[OF this, of "documents self" "[]"]
  show ?thesis
    using ix ans k
    by (simp add: search_def faiss_manager_search_def py_slice_def clip_index_def min_def)
qed

text \<open>
  C3. For candidates at non-negative positions \<open>search\<close> asks for \<open>2 * top_k\<close> candidates,
  keeps those above the threshold whose position is below the number of documents, in
  the order of the index, and cuts the list to \<open>top_k\<close>, as the lemma above shows. A
  candidate at position \<open>-1\<close>, with which the index pads a short answer, passes the
  position test: with one document it is returned as that document, and with no
  document the read raises \<open>IndexError\<close>.
\<close>

theorem search_keeps_padding_position:
  "search \<lparr>model_encode = id,
           index = Some (\<lambda>v k. Inr ([0.9, 340282346638528859811704183484516925440,
                                      340282346638528859811704183484516925440,
                                      340282346638528859811704183484516925440],
                                     [0, - 1, - 1, - 1])),
           documents = [\<lparr>chunk_id = [48], content = [97], source = [115],
                          metadata = \<lparr>start_pos = 0, end_pos = 1, chunk_index = 0\<rparr>\<rparr>]\<rparr>
      [113] 2
     = Inr [\<lparr>doc_content = [97], doc_source = [115], score = 0.9,
              doc_metadata = \<lparr>start_pos = 0, end_pos = 1, chunk_index = 0\<rparr>\<rparr>,
            \<lparr>doc_content = [97], doc_source = [115],
              score = 340282346638528859811704183484516925440,
              doc_metadata = \<lparr>start_pos = 0, end_pos = 1, chunk_index = 0\<rparr>\<rparr>]
   \<and> search \<lparr>model_encode = id,
             index = Some (\<lambda>v k. Inr ([340282346638528859811704183484516925440,
                                        340282346638528859811704183484516925440],
                                       [- 1, - 1])),
             documents = []\<rparr>
        [113] 1
       = Inl IndexError"
  by (simp add: search_def faiss_manager_search_def py_nth_def py_slice_def clip_index_def)

end
